theory Spec2Isabelle
  imports Complex_Main "HOL-Library.Word"
begin

unbundle bit_operations_syntax

section \<open>The waveform generator of resid-fp (wave.h)\<close>

subsection \<open>Data model\<close>

text \<open>
  Modelled from the spec: the header siddefs-fp.h, which declares the register types
  reg8, reg12, reg16 and reg24, is not among the sources. The spec gives the registers as
  unsigned values of 8, 12, 16 and 24 bits, kept in range by masking; the code masks
  explicitly (\<^verbatim>\<open>accumulator &= 0xffffff\<close>), so the storage is wider than the values,
  and the registers are taken as C's \<^verbatim>\<open>unsigned int\<close>, 32 bits, where \<open>+\<close> and \<open><<\<close>
  wrap around.
\<close>

type_synonym reg8 = "32 word"
type_synonym reg12 = "32 word"
type_synonym reg16 = "32 word"
type_synonym reg24 = "32 word"

text \<open>
  The pointers \<^verbatim>\<open>sync_source\<close> and \<^verbatim>\<open>sync_dest\<close> are addresses into a store of
  oscillators: \<^verbatim>\<open>synchronize\<close> writes through \<^verbatim>\<open>sync_dest\<close>, and the two pointers of
  one oscillator, or of two oscillators, may name the same object.
\<close>

type_synonym addr = nat

text \<open>
  The fields of \<^verbatim>\<open>class WaveformGeneratorFP\<close>, in the order of the declaration. The
  field \<^verbatim>\<open>model\<close> (of the enum \<^verbatim>\<open>chip_model\<close>, declared in siddefs-fp.h) is read by
  none of the inline functions of wave.h and is left out. The type \<open>'f\<close> stands for
  \<^verbatim>\<open>float\<close>: the functions below only add such values, and nothing is assumed of the
  addition (sort \<open>plus\<close> has no axioms), so every result holds for IEEE addition too.
\<close>

record 'f WaveformGeneratorFP =
  sync_source :: addr
  sync_dest :: addr
  msb_rising :: bool
  accumulator :: reg24
  shift_register :: reg24
  noise_output_cached :: reg12
  previous :: reg8
  noise_overwrite_delay :: "32 word"
  freq :: reg16
  pw :: reg12
  waveform :: reg8
  test :: bool
  ring_mod :: bool
  sync :: bool
  wave_zero :: 'f
  previous_dac :: 'f
  noise_output_cached_dac :: 'f

type_synonym 'f store = "addr \<rightharpoonup> 'f WaveformGeneratorFP"

text \<open>
  What C++ leaves undefined is an error value of the model: following a pointer that
  names no oscillator, and reading \<^verbatim>\<open>wftable\<close> outside its declared bounds.
\<close>

datatype error = InvalidPointer | IndexOutOfRange

subsection \<open>The noise output\<close>

text \<open>\<^verbatim>\<open>outputN___\<close> (wave.h, lines 200 to 212); a name cannot end in underscores here.\<close>

definition outputN :: "'f WaveformGeneratorFP \<Rightarrow> reg12" where
  "outputN s =
     (drop_bit 11 (shift_register s AND 0x400000) OR
      drop_bit 10 (shift_register s AND 0x100000) OR
      drop_bit 7 (shift_register s AND 0x010000) OR
      drop_bit 5 (shift_register s AND 0x002000) OR
      drop_bit 4 (shift_register s AND 0x000800) OR
      drop_bit 1 (shift_register s AND 0x000080) OR
      push_bit 1 (shift_register s AND 0x000010) OR
      push_bit 2 (shift_register s AND 0x000004))"

text \<open>
  The loop \<^verbatim>\<open>for (int i = 0; i < 12; i ++) if (noise_output_cached & (1 << i))
  noise_output_cached_dac += dac[i];\<close> started from \<^verbatim>\<open>wave_zero\<close>: a left fold over
  \<open>0, ..., 11\<close> in this order. The table \<^verbatim>\<open>extern float dac[12]\<close> is a parameter; the
  loop reads it at indices below 12 only.
\<close>

definition noise_dac_sum :: "(nat \<Rightarrow> 'f::plus) \<Rightarrow> 'f \<Rightarrow> reg12 \<Rightarrow> 'f" where
  "noise_dac_sum dac wz w =
     foldl (\<lambda>d i. if w AND push_bit i 1 \<noteq> 0 then d + dac i else d) wz [0..<12]"

text \<open>
  The four statements that \<^verbatim>\<open>clock\<close> (lines 112 to 118) and \<^verbatim>\<open>clock_noise\<close> (lines
  154 to 160) both end with: cache \<^verbatim>\<open>outputN___()\<close>, then rebuild the analog sample
  from the cached word.
\<close>

definition recompute_noise_output ::
  "(nat \<Rightarrow> 'f::plus) \<Rightarrow> 'f WaveformGeneratorFP \<Rightarrow> 'f WaveformGeneratorFP" where
  "recompute_noise_output dac s =
     (let s1 = s\<lparr>noise_output_cached := outputN s\<rparr>
      in s1\<lparr>noise_output_cached_dac :=
               noise_dac_sum dac (wave_zero s1) (noise_output_cached s1)\<rparr>)"

subsection \<open>The noise generator\<close>

text \<open>
  The constant of line 151,
  \<^verbatim>\<open>0x7fffff^(1<<22)^(1<<20)^(1<<16)^(1<<13)^(1<<11)^(1<<7)^(1<<4)^(1<<2)\<close>.
\<close>

definition noise_clear_mask :: reg24 where
  "noise_clear_mask =
     0x7fffff XOR push_bit 22 1 XOR push_bit 20 1 XOR push_bit 16 1 XOR push_bit 13 1
       XOR push_bit 11 1 XOR push_bit 7 1 XOR push_bit 4 1 XOR push_bit 2 1"

text \<open>
  The three statements under \<^verbatim>\<open>if (clock)\<close> (lines 143 to 145), for a register of any
  width: the code has no mask between the shift and the insertion of bit 0.
\<close>

definition shift_noise :: "'a::len word \<Rightarrow> 'a word" where
  "shift_noise r =
     (let bit0 = (drop_bit 22 r XOR drop_bit 17 r) AND 1
      in push_bit 1 r OR bit0)"

text \<open>\<^verbatim>\<open>clock_noise\<close> (lines 139 to 161).\<close>

definition clock_noise ::
  "(nat \<Rightarrow> 'f::plus) \<Rightarrow> bool \<Rightarrow> 'f WaveformGeneratorFP \<Rightarrow> 'f WaveformGeneratorFP" where
  "clock_noise dac clk s =
     (let s1 = (if clk then s\<lparr>shift_register := shift_noise (shift_register s)\<rparr> else s);
          s2 = (if waveform s1 > 8
                then s1\<lparr>shift_register := shift_register s1 AND noise_clear_mask\<rparr>
                else s1)
      in recompute_noise_output dac s2)"

subsection \<open>Clocking\<close>

text \<open>
  \<^verbatim>\<open>clock\<close> (lines 104 to 137). The countdown \<^verbatim>\<open>noise_overwrite_delay\<close> is an
  \<^verbatim>\<open>int\<close>: a 32-bit word that \<open>sint\<close> reads in two's complement. The tests against 0
  and the pre-decrement are the same on the word as on the \<^verbatim>\<open>int\<close>, as long as the
  \<^verbatim>\<open>int\<close> does not overflow.
\<close>

definition clock ::
  "(nat \<Rightarrow> 'f::plus) \<Rightarrow> 'f WaveformGeneratorFP \<Rightarrow> 'f WaveformGeneratorFP" where
  "clock dac s =
     (if test s then
        (if noise_overwrite_delay s \<noteq> 0 then
           (let s1 = s\<lparr>noise_overwrite_delay := noise_overwrite_delay s - 1\<rparr>
            in if noise_overwrite_delay s1 = 0
               then recompute_noise_output dac
                      (s1\<lparr>shift_register := shift_register s1 OR 0x7ffffc\<rparr>)
               else s1)
         else s)
      else
        (let accumulator_prev = accumulator s;
             s1 = s\<lparr>accumulator := (accumulator s + freq s) AND 0xffffff\<rparr>;
             s2 = s1\<lparr>msb_rising :=
                        accumulator_prev AND 0x800000 = 0 \<and> accumulator s1 AND 0x800000 \<noteq> 0\<rparr>
         in if accumulator_prev AND 0x080000 = 0 \<and> accumulator s2 AND 0x080000 \<noteq> 0
            then clock_noise dac True s2
            else s2))"

subsection \<open>Synchronisation\<close>

text \<open>
  \<^verbatim>\<open>synchronize\<close> (lines 170 to 179), on the store: \<open>this\<close> is the address of the
  oscillator the method is called on. The operands of \<^verbatim>\<open>&&\<close> are evaluated from the
  left, so a pointer is followed only when the operands before it are true.
\<close>

definition synchronize :: "'f store \<Rightarrow> addr \<Rightarrow> error + 'f store" where
  "synchronize h this =
     (case h this of
        None \<Rightarrow> Inl InvalidPointer
      | Some s \<Rightarrow>
          if msb_rising s then
            (case h (sync_dest s) of
               None \<Rightarrow> Inl InvalidPointer
             | Some d \<Rightarrow>
                 if sync d then
                   (if sync s then
                      (case h (sync_source s) of
                         None \<Rightarrow> Inl InvalidPointer
                       | Some src \<Rightarrow>
                           if msb_rising src then Inr h
                           else Inr (h(sync_dest s \<mapsto> d\<lparr>accumulator := 0\<rparr>)))
                    else Inr (h(sync_dest s \<mapsto> d\<lparr>accumulator := 0\<rparr>)))
                 else Inr h)
          else Inr h)"

subsection \<open>Output selection\<close>

text \<open>
  The read \<^verbatim>\<open>wftable[i][j]\<close> of \<^verbatim>\<open>extern float wftable[11][4096]\<close>; the table is a
  parameter.
\<close>

definition wftable_read :: "(nat \<Rightarrow> nat \<Rightarrow> 'f) \<Rightarrow> 32 word \<Rightarrow> reg12 \<Rightarrow> error + 'f" where
  "wftable_read wftable i j =
     (if unat i < 11 \<and> unat j < 4096 then Inr (wftable (unat i) (unat j))
      else Inl IndexOutOfRange)"

text \<open>
  Lines 232 to 242 of \<^verbatim>\<open>output\<close>, for the waveforms 1 to 7: the pair of indices
  \<^verbatim>\<open>(waveform + variant, phase)\<close> that \<^verbatim>\<open>wftable\<close> is read at. \<^verbatim>\<open>variant\<close> is an
  \<^verbatim>\<open>int\<close>, 3 or -1, and the sum with the unsigned \<^verbatim>\<open>waveform\<close> is taken in
  \<^verbatim>\<open>unsigned int\<close>, where -1 is \<open>2^32 - 1\<close>. The comparison with \<^verbatim>\<open>pw\<close> comes before
  the flip of the phase.
\<close>

definition wave_index ::
  "'f store \<Rightarrow> 'f WaveformGeneratorFP \<Rightarrow> error + (32 word \<times> reg12)" where
  "wave_index h s =
     (let phase = drop_bit 12 (accumulator s);
          variant = (if waveform s \<ge> 4 \<and> (test s \<or> phase \<ge> pw s) then 3 else - 1)
      in if waveform s AND 3 = 1 \<and> ring_mod s then
           (case h (sync_source s) of
              None \<Rightarrow> Inl InvalidPointer
            | Some src \<Rightarrow>
                Inr (waveform s + variant,
                     if accumulator src AND 0x800000 \<noteq> 0 then phase XOR 0x800 else phase))
         else Inr (waveform s + variant, phase))"

text \<open>
  \<^verbatim>\<open>output\<close> (lines 217 to 243), on the store; \<open>output\<close> is a keyword here, hence
  the suffix.
\<close>

definition output_wave :: "(nat \<Rightarrow> nat \<Rightarrow> 'f) \<Rightarrow> 'f store \<Rightarrow> addr \<Rightarrow> error + 'f" where
  "output_wave wftable h this =
     (case h this of
        None \<Rightarrow> Inl InvalidPointer
      | Some s \<Rightarrow>
          if waveform s = 0 then Inr (previous_dac s)
          else if waveform s = 8 then Inr (noise_output_cached_dac s)
          else if waveform s > 8 then Inr (wave_zero s)
          else (case wave_index h s of
                  Inl e \<Rightarrow> Inl e
                | Inr (i, phase) \<Rightarrow> wftable_read wftable i phase))"

subsection \<open>Concrete oscillators\<close>

text \<open>
  Inputs at which the results below are evaluated. Samples are real numbers there; the
  weight of bit \<open>i\<close> is \<open>2 ^ i\<close>, and row \<open>i\<close> of the waveform table holds \<open>i\<close>
  throughout, so that a sample read from the table tells its row.
\<close>

definition dac_pow2 :: "nat \<Rightarrow> real" where
  "dac_pow2 i = 2 ^ i"

definition wftable_rows :: "nat \<Rightarrow> nat \<Rightarrow> real" where
  "wftable_rows i j = real i"

definition idle :: "real WaveformGeneratorFP" where
  "idle = \<lparr>sync_source = 0, sync_dest = 0, msb_rising = False, accumulator = 0,
     shift_register = 0, noise_output_cached = 0, previous = 0, noise_overwrite_delay = 0,
     freq = 0, pw = 0, waveform = 0, test = False, ring_mod = False, sync = False,
     wave_zero = - 1, previous_dac = 5, noise_output_cached_dac = 7\<rparr>"

text \<open>Two oscillators that sync each other, both with a rising MSB in this cycle.\<close>

definition mutual_a :: "real WaveformGeneratorFP" where
  "mutual_a = idle\<lparr>sync_source := 1, sync_dest := 1, msb_rising := True,
     accumulator := 0x800000, sync := True\<rparr>"

definition mutual_b :: "real WaveformGeneratorFP" where
  "mutual_b = idle\<lparr>sync_source := 0, sync_dest := 0, msb_rising := True,
     accumulator := 0x800123, sync := True\<rparr>"

definition mutual_pair :: "real store" where
  "mutual_pair = [0 \<mapsto> mutual_a, 1 \<mapsto> mutual_b]"

text \<open>
  A ring of three, as the chip wires its voices: oscillator 0 has a rising MSB and is
  not synced itself, its destination 1 is.
\<close>

definition ring_0 :: "real WaveformGeneratorFP" where
  "ring_0 = idle\<lparr>sync_source := 2, sync_dest := 1, msb_rising := True,
     accumulator := 0x800000\<rparr>"

definition ring_1 :: "real WaveformGeneratorFP" where
  "ring_1 = idle\<lparr>sync_source := 0, sync_dest := 2, accumulator := 0x123456, sync := True\<rparr>"

definition ring_2 :: "real WaveformGeneratorFP" where
  "ring_2 = idle\<lparr>sync_source := 1, sync_dest := 0, accumulator := 0x654321\<rparr>"

definition ring :: "real store" where
  "ring = [0 \<mapsto> ring_0, 1 \<mapsto> ring_1, 2 \<mapsto> ring_2]"

text \<open>A pulse oscillator with pulse width 2048, just below and at the threshold.\<close>

definition pulse_below :: "real WaveformGeneratorFP" where
  "pulse_below = idle\<lparr>accumulator := 0x7ff000, pw := 2048, waveform := 4\<rparr>"

definition pulse_at :: "real WaveformGeneratorFP" where
  "pulse_at = idle\<lparr>accumulator := 0x800000, pw := 2048, waveform := 4\<rparr>"

text \<open>
  Ring modulation switched on, with a sync source (at address 1) whose accumulator has
  bit 23 set: a triangle, and a triangle combined with a sawtooth.
\<close>

definition ring_source :: "real WaveformGeneratorFP" where
  "ring_source = idle\<lparr>accumulator := 0x800000\<rparr>"

definition ring_triangle :: "real WaveformGeneratorFP" where
  "ring_triangle = idle\<lparr>sync_source := 1, accumulator := 0x123456, waveform := 1,
     ring_mod := True\<rparr>"

definition ring_tri_saw :: "real WaveformGeneratorFP" where
  "ring_tri_saw = idle\<lparr>sync_source := 1, accumulator := 0x123456, waveform := 3,
     ring_mod := True\<rparr>"

text \<open>
  Noise: a register with the taps 22 and 2 set; the register that the test path leaves
  behind, about to be clocked by bit 19 of the accumulator; and an oscillator held in
  test with an all-zero register and three cycles of countdown left.
\<close>

definition noise_taps_22_2 :: "real WaveformGeneratorFP" where
  "noise_taps_22_2 = idle\<lparr>shift_register := 0x400004, waveform := 8\<rparr>"

definition noise_full :: "real WaveformGeneratorFP" where
  "noise_full = idle\<lparr>accumulator := 0x07ffff, shift_register := 0x7ffffc, freq := 1,
     waveform := 8\<rparr>"

definition noise_combined :: "real WaveformGeneratorFP" where
  "noise_combined = idle\<lparr>shift_register := 0x7fffff, waveform := 9\<rparr>"

definition held :: "real WaveformGeneratorFP" where
  "held = idle\<lparr>accumulator := 0x123456, noise_overwrite_delay := 3, freq := 4096,
     test := True\<rparr>"

definition running :: "real WaveformGeneratorFP" where
  "running = idle\<lparr>freq := 4096\<rparr>"

section \<open>Bits of 32-bit words\<close>

lemma and_single_bit:
  "(x::'a::len word) AND push_bit k 1 = (if bit x k then push_bit k 1 else 0)"
  by (rule bit_word_eqI) (auto simp: bit_simps)

lemma test_single_bit: "(w::32 word) AND push_bit i 1 \<noteq> 0 \<longleftrightarrow> bit w i"
proof -
  have "bit w i \<Longrightarrow> push_bit i (1::32 word) \<noteq> 0"
    using bit_imp_le_length[of w i] by (simp add: exp_eq_zero_iff)
  then show ?thesis unfolding and_single_bit by auto
qed

lemma and_0x800000: "(a::32 word) AND 0x800000 = 0 \<longleftrightarrow> \<not> bit a 23"
proof -
  have "(0x800000::32 word) = push_bit 23 1" by simp
  then show ?thesis using test_single_bit[of a 23] by auto
qed

lemma and_0x080000: "(a::32 word) AND 0x080000 = 0 \<longleftrightarrow> \<not> bit a 19"
proof -
  have "(0x080000::32 word) = push_bit 19 1" by simp
  then show ?thesis using test_single_bit[of a 19] by auto
qed

lemma bit_single: "bit (push_bit k (1::32 word)) n \<longleftrightarrow> n = k \<and> k < 32"
  by (simp only: bit_push_bit_iff bit_1_iff) (auto simp: possible_bit_word)

lemma tap_down:
  "j \<le> k \<Longrightarrow> k < 32 \<Longrightarrow>
     bit (drop_bit j ((x::32 word) AND push_bit k 1)) n \<longleftrightarrow> bit x k \<and> n = k - j"
  by (auto simp: bit_simps)

lemma tap_up:
  "k + j < 32 \<Longrightarrow>
     bit (push_bit j ((x::32 word) AND push_bit k 1)) n \<longleftrightarrow> bit x k \<and> n = k + j"
  by (auto simp: bit_simps)

lemma tap_masks:
  "(0x400000::32 word) = push_bit 22 1" "(0x100000::32 word) = push_bit 20 1"
  "(0x010000::32 word) = push_bit 16 1" "(0x002000::32 word) = push_bit 13 1"
  "(0x000800::32 word) = push_bit 11 1" "(0x000080::32 word) = push_bit 7 1"
  "(0x000010::32 word) = push_bit 4 1" "(0x000004::32 word) = push_bit 2 1"
  by simp_all

lemma bit_shift_left_1:
  "bit (push_bit 1 (r::32 word)) n \<longleftrightarrow> 0 < n \<and> n < 32 \<and> bit r (n - 1)"
  by (simp only: bit_push_bit_iff) (auto simp: possible_bit_word)

lemma bit_feedback:
  "bit ((drop_bit 22 r XOR drop_bit 17 (r::32 word)) AND 1) n \<longleftrightarrow>
     n = 0 \<and> (bit r 22 \<noteq> bit r 17)"
  by (auto simp: bit_simps)

lemma unat_masked_sum:
  "unat (((a::32 word) + f) AND 0xffffff) = (unat a + unat f) mod 2 ^ 24"
proof -
  have "(0xffffff::32 word) = mask 24" by (simp add: mask_numeral)
  then have "unat ((a + f) AND 0xffffff) = unat (take_bit 24 (a + f))"
    by (simp add: take_bit_eq_mask)
  also have "\<dots> = take_bit 24 (unat (a + f))" by (simp add: unsigned_take_bit_eq)
  also have "\<dots> = (unat a + unat f) mod 2 ^ 32 mod 2 ^ 24"
    by (simp add: take_bit_eq_mod unat_word_ariths)
  also have "\<dots> = (unat a + unat f) mod 2 ^ 24"
    by (simp add: mod_mod_cancel)
  finally show ?thesis .
qed

lemma bit_23_unat: "unat (a::32 word) < 2 ^ 24 \<Longrightarrow> bit a 23 \<longleftrightarrow> 2 ^ 23 \<le> unat a"
proof -
  assume b: "unat a < 2 ^ 24"
  have "bit a 23 \<longleftrightarrow> bit (unat a) 23" by (simp add: bit_unsigned_iff)
  also have "\<dots> \<longleftrightarrow> odd (unat a div 2 ^ 23)" by (simp add: bit_iff_odd)
  also have "\<dots> \<longleftrightarrow> 2 ^ 23 \<le> unat a"
  proof (cases "2 ^ 23 \<le> unat a")
    case True
    then have "unat a div 2 ^ 23 = 1" using b by simp
    then show ?thesis using True by simp
  next
    case False
    then have "unat a div 2 ^ 23 = 0" by simp
    then show ?thesis using False by simp
  qed
  finally show ?thesis .
qed

lemma phase_bound: "(a::32 word) < 2 ^ 24 \<Longrightarrow> unat (drop_bit 12 a) < 4096"
  by (simp add: word_less_nat_alt drop_bit_eq_div unat_div div_less_iff_less_mult)

lemma phase_flip_bound: "unat (p::32 word) < 4096 \<Longrightarrow> unat (p XOR 0x800) < 4096"
proof -
  assume "unat p < 4096"
  then have "p < 2 ^ 12" by (simp add: word_less_nat_alt)
  then have "p AND mask 12 = p" by (rule less_mask_eq)
  then have "(p XOR 0x800) AND mask 12 = p XOR 0x800"
    by (simp add: bit.conj_xor_distrib2 mask_numeral)
  moreover have "(p XOR 0x800) AND mask 12 < 2 ^ 12"
    by (rule and_mask_less_size) (simp add: word_size)
  ultimately have "p XOR 0x800 < 2 ^ 12" by simp
  then show ?thesis by (simp add: word_less_nat_alt)
qed

lemma code_1_to_7:
  "1 \<le> (w::32 word) \<Longrightarrow> w \<le> 7 \<Longrightarrow>
     w = 1 \<or> w = 2 \<or> w = 3 \<or> w = 4 \<or> w = 5 \<or> w = 6 \<or> w = 7"
  by (simp add: word_le_nat_alt word_eq_iff_unsigned[where ?'a = nat]) arith

lemma sint_pos_unat: "0 < sint (d::32 word) \<Longrightarrow> nat (sint d) = unat d"
proof -
  assume p: "0 < sint d"
  have "sint d < 2 ^ 32" using sint_lt[of d] by simp
  then have "take_bit 32 (sint d) = sint d" using p by (simp add: take_bit_int_eq_self)
  then have "uint d = sint d" using uint_sint[of d] by simp
  then show ?thesis by (simp add: unat_eq_nat_uint)
qed

lemma unat_Suc_0: "unat (d::32 word) = Suc 0 \<Longrightarrow> d = 1"
  by (simp add: word_unat_eq_iff)

lemma or_0x7ffffc_nonzero: "(r::32 word) OR 0x7ffffc \<noteq> 0"
  by (simp add: or_eq_0_iff)

section \<open>The fixed outputs: waveforms 0 and 8 to 15\<close>

text \<open>
  C3: \<^verbatim>\<open>output\<close> returns \<^verbatim>\<open>previous_dac\<close> for waveform 0, whatever the accumulator
  is; \<^verbatim>\<open>noise_output_cached_dac\<close> for waveform 8; and \<^verbatim>\<open>wave_zero\<close> for each of the
  waveforms 9 to 15, whatever the accumulator, the noise register and the cached noise
  output are. The waveform table and the sync pointers play no part.
\<close>

theorem output_fixed_codes:
  assumes "h this = Some s"
  shows "(waveform s = 0 \<longrightarrow>
            output_wave wft h this = Inr (previous_dac s) \<and>
            (\<forall>a. output_wave wft (h(this \<mapsto> s\<lparr>accumulator := a\<rparr>)) this = Inr (previous_dac s))) \<and>
         (waveform s = 8 \<longrightarrow> output_wave wft h this = Inr (noise_output_cached_dac s)) \<and>
         (9 \<le> waveform s \<and> waveform s \<le> 15 \<longrightarrow>
            output_wave wft h this = Inr (wave_zero s) \<and>
            (\<forall>a r w v. output_wave wft
               (h(this \<mapsto> s\<lparr>accumulator := a, shift_register := r, noise_output_cached := w,
                    noise_output_cached_dac := v\<rparr>)) this = Inr (wave_zero s)))"
  using assms by (auto simp: output_wave_def word_le_nat_alt word_less_nat_alt)

theorem output_fixed_codes_witness:
  "output_wave wftable_rows [0 \<mapsto> idle] 0 = Inr 5 \<and>
   output_wave wftable_rows [0 \<mapsto> idle\<lparr>accumulator := 0x123456\<rparr>] 0 = Inr 5 \<and>
   output_wave wftable_rows [0 \<mapsto> noise_taps_22_2] 0 = Inr 7 \<and>
   output_wave wftable_rows [0 \<mapsto> noise_combined] 0 = Inr (- 1) \<and>
   output_wave wftable_rows [0 \<mapsto> noise_combined\<lparr>accumulator := 0x800000,
     shift_register := 0, noise_output_cached := 0xff0, noise_output_cached_dac := 3\<rparr>] 0
     = Inr (- 1)"
proof -
  have a: "[0 \<mapsto> idle] (0::nat) = Some idle" by simp
  have b: "[0 \<mapsto> noise_taps_22_2] (0::nat) = Some noise_taps_22_2" by simp
  have c: "[0 \<mapsto> noise_combined] (0::nat) = Some noise_combined" by simp
  have 1: "waveform idle = 0" "previous_dac idle = 5" by (simp_all add: idle_def)
  have 2: "waveform noise_taps_22_2 = 8" "noise_output_cached_dac noise_taps_22_2 = 7"
    by (simp_all add: noise_taps_22_2_def idle_def)
  have 3: "9 \<le> waveform noise_combined \<and> waveform noise_combined \<le> 15"
    "wave_zero noise_combined = - 1"
    by (simp_all add: noise_combined_def idle_def)
  from output_fixed_codes[where h = "[0 \<mapsto> idle]" and this = 0 and s = idle
      and wft = wftable_rows] a 1
  have "output_wave wftable_rows [0 \<mapsto> idle] 0 = Inr 5"
    "output_wave wftable_rows [0 \<mapsto> idle\<lparr>accumulator := 0x123456\<rparr>] 0 = Inr 5"
    by simp_all
  moreover from output_fixed_codes[where h = "[0 \<mapsto> noise_taps_22_2]" and this = 0
      and s = noise_taps_22_2 and wft = wftable_rows] b 2
  have "output_wave wftable_rows [0 \<mapsto> noise_taps_22_2] 0 = Inr 7" by simp
  moreover from output_fixed_codes[where h = "[0 \<mapsto> noise_combined]" and this = 0
      and s = noise_combined and wft = wftable_rows] c 3
  have "output_wave wftable_rows [0 \<mapsto> noise_combined] 0 = Inr (- 1)"
    "output_wave wftable_rows [0 \<mapsto> noise_combined\<lparr>accumulator := 0x800000,
       shift_register := 0, noise_output_cached := 0xff0, noise_output_cached_dac := 3\<rparr>] 0
       = Inr (- 1)"
    by simp_all
  ultimately show ?thesis by simp
qed

section \<open>Hard sync\<close>

text \<open>
  C2: called on an oscillator whose pointers name oscillators of the store,
  \<^verbatim>\<open>synchronize\<close> sets the accumulator of the sync destination to zero if and only if
  the oscillator's \<^verbatim>\<open>msb_rising\<close> is set, the destination's \<^verbatim>\<open>sync\<close> is set, and it is
  not the case that the oscillator's own \<^verbatim>\<open>sync\<close> is set while its sync source's
  \<^verbatim>\<open>msb_rising\<close> is set; otherwise the store is left as it is. For two oscillators that
  are each other's source and destination, both with \<^verbatim>\<open>sync\<close> and \<^verbatim>\<open>msb_rising\<close> set,
  neither call changes the store, so neither accumulator is reset.
\<close>

theorem synchronize_resets_destination:
  "(h this = Some s \<and> h (sync_dest s) = Some d \<and> h (sync_source s) = Some src \<longrightarrow>
      synchronize h this =
        Inr (if msb_rising s \<and> sync d \<and> \<not> (sync s \<and> msb_rising src)
             then h(sync_dest s \<mapsto> d\<lparr>accumulator := 0\<rparr>) else h)) \<and>
   (h a = Some osc_a \<and> h b = Some osc_b \<and>
    sync_dest osc_a = b \<and> sync_source osc_a = b \<and>
    sync_dest osc_b = a \<and> sync_source osc_b = a \<and>
    sync osc_a \<and> sync osc_b \<and> msb_rising osc_a \<and> msb_rising osc_b \<longrightarrow>
      synchronize h a = Inr h \<and> synchronize h b = Inr h)"
  by (simp add: synchronize_def)

theorem synchronize_resets_destination_witness:
  "synchronize mutual_pair 0 = Inr mutual_pair \<and>
   synchronize mutual_pair 1 = Inr mutual_pair \<and>
   synchronize ring 0 = Inr (ring(1 \<mapsto> ring_1\<lparr>accumulator := 0\<rparr>)) \<and>
   synchronize ring 1 = Inr ring"
proof -
  have m: "mutual_pair 0 = Some mutual_a \<and> mutual_pair 1 = Some mutual_b \<and>
      sync_dest mutual_a = 1 \<and> sync_source mutual_a = 1 \<and>
      sync_dest mutual_b = 0 \<and> sync_source mutual_b = 0 \<and>
      sync mutual_a \<and> sync mutual_b \<and> msb_rising mutual_a \<and> msb_rising mutual_b"
    by (simp add: mutual_pair_def mutual_a_def mutual_b_def ring_0_def ring_1_def ring_2_def ring_def idle_def)
  have r0: "ring 0 = Some ring_0 \<and> ring (sync_dest ring_0) = Some ring_1 \<and>
      ring (sync_source ring_0) = Some ring_2"
    by (simp add: mutual_pair_def mutual_a_def mutual_b_def ring_0_def ring_1_def ring_2_def ring_def idle_def)
  have r1: "ring 1 = Some ring_1 \<and> ring (sync_dest ring_1) = Some ring_2 \<and>
      ring (sync_source ring_1) = Some ring_0"
    by (simp add: mutual_pair_def mutual_a_def mutual_b_def ring_0_def ring_1_def ring_2_def ring_def idle_def)
  have f: "msb_rising ring_0" "sync ring_1" "\<not> sync ring_0" "\<not> msb_rising ring_1"
    "sync_dest ring_0 = 1"
    by (simp_all add: mutual_pair_def mutual_a_def mutual_b_def ring_0_def ring_1_def ring_2_def ring_def idle_def)
  from synchronize_resets_destination[of mutual_pair 0 mutual_a mutual_b mutual_b 0 mutual_a 1 mutual_b] m
  have "synchronize mutual_pair 0 = Inr mutual_pair \<and> synchronize mutual_pair 1 = Inr mutual_pair"
    by blast
  moreover from synchronize_resets_destination[of ring 0 ring_0 ring_1 ring_2] r0 f
  have "synchronize ring 0 = Inr (ring(1 \<mapsto> ring_1\<lparr>accumulator := 0\<rparr>))" by simp
  moreover from synchronize_resets_destination[of ring 1 ring_1 ring_2 ring_0] r1 f
  have "synchronize ring 1 = Inr ring" by simp
  ultimately show ?thesis by simp
qed

section \<open>The table lookup: waveforms 1 to 7\<close>

lemma wave_index_row:
  assumes "wave_index h s = Inr (i, p)"
  shows "i = waveform s + (if 4 \<le> waveform s \<and> (test s \<or> pw s \<le> drop_bit 12 (accumulator s))
                           then 3 else - 1)"
  using assms by (auto simp: wave_index_def Let_def split: if_splits option.splits)

lemma wave_index_phase:
  assumes "wave_index h s = Inr (i, p)"
  shows "p = drop_bit 12 (accumulator s) \<or> p = drop_bit 12 (accumulator s) XOR 0x800"
  using assms by (auto simp: wave_index_def Let_def split: if_splits option.splits)

lemma wave_index_in_bounds:
  assumes "1 \<le> waveform s" "waveform s \<le> 7" "accumulator s < 2 ^ 24"
    and "wave_index h s = Inr (i, p)"
  shows "unat p < 4096" "unat i < 11"
    "i = waveform s - 1 \<or> 4 \<le> waveform s \<and> i = waveform s + 3"
proof -
  have ph: "unat (drop_bit 12 (accumulator s)) < 4096" using assms(3) by (rule phase_bound)
  show "unat p < 4096" using wave_index_phase[OF assms(4)] ph phase_flip_bound by auto
  show i: "i = waveform s - 1 \<or> 4 \<le> waveform s \<and> i = waveform s + 3"
    using wave_index_row[OF assms(4)] by (simp split: if_splits)
  show "unat i < 11" using i code_1_to_7[OF assms(1,2)] by auto
qed

text \<open>
  C10: for a waveform from 1 to 7 and an accumulator below \<open>2^24\<close>, the phase
  \<^verbatim>\<open>accumulator >> 12\<close> is below 4096, and whenever \<^verbatim>\<open>output\<close> gets to the table it
  reads \<^verbatim>\<open>wftable[i][p]\<close> with \<open>p < 4096\<close> and with \<open>i\<close> either \<^verbatim>\<open>waveform - 1\<close> or, only
  for a waveform of at least 4, \<^verbatim>\<open>waveform + 3\<close>, so \<open>i < 11\<close>: the read is never out of
  the bounds of the 11 by 4096 table.
\<close>

theorem wftable_read_in_bounds:
  assumes "h this = Some s" and "1 \<le> waveform s" and "waveform s \<le> 7"
    and "accumulator s < 2 ^ 24"
  shows "unat (drop_bit 12 (accumulator s)) < 4096 \<and>
         output_wave wft h this \<noteq> Inl IndexOutOfRange \<and>
         (\<forall>i p. wave_index h s = Inr (i, p) \<longrightarrow>
            unat p < 4096 \<and> unat i < 11 \<and>
            (i = waveform s - 1 \<or> 4 \<le> waveform s \<and> i = waveform s + 3) \<and>
            output_wave wft h this = Inr (wft (unat i) (unat p)))"
proof -
  have w: "waveform s \<noteq> 0" "waveform s \<noteq> 8" "\<not> 8 < waveform s"
    using code_1_to_7[OF assms(2,3)] by auto
  have out: "output_wave wft h this =
      (case wave_index h s of Inl e \<Rightarrow> Inl e | Inr (i, p) \<Rightarrow> wftable_read wft i p)"
    using assms(1) w by (simp add: output_wave_def)
  have rd: "unat p < 4096 \<and> unat i < 11 \<and>
      (i = waveform s - 1 \<or> 4 \<le> waveform s \<and> i = waveform s + 3) \<and>
      output_wave wft h this = Inr (wft (unat i) (unat p))"
    if "wave_index h s = Inr (i, p)" for i p
    using wave_index_in_bounds[OF assms(2,3,4) that] that
    by (simp add: out wftable_read_def)
  have err: "wave_index h s = Inl e \<Longrightarrow> e = InvalidPointer" for e
    by (auto simp: wave_index_def Let_def split: if_splits option.splits)
  have "output_wave wft h this \<noteq> Inl IndexOutOfRange"
  proof (cases "wave_index h s")
    case (Inl e)
    then show ?thesis using err[OF Inl] by (simp add: out)
  next
    case (Inr ip)
    then obtain i p where "wave_index h s = Inr (i, p)" by (cases ip) simp
    then show ?thesis using rd by simp
  qed
  then show ?thesis using phase_bound[OF assms(4)] rd by blast
qed

theorem wftable_read_in_bounds_witness:
  "unat (drop_bit 12 (accumulator ring_triangle)) < 4096 \<and>
   wave_index [0 \<mapsto> ring_triangle, 1 \<mapsto> ring_source] ring_triangle = Inr (0, 0x923) \<and>
   output_wave wftable_rows [0 \<mapsto> ring_triangle, 1 \<mapsto> ring_source] 0 = Inr 0 \<and>
   wave_index [0 \<mapsto> pulse_at] pulse_at = Inr (7, 0x800) \<and>
   output_wave wftable_rows [0 \<mapsto> pulse_at] 0 = Inr 7"
proof -
  have t: "[0 \<mapsto> ring_triangle, 1 \<mapsto> ring_source] (0::nat) = Some ring_triangle"
    "1 \<le> waveform ring_triangle" "waveform ring_triangle \<le> 7"
    "accumulator ring_triangle < 2 ^ 24"
    by (simp_all add: ring_triangle_def ring_source_def pulse_at_def idle_def)
  have ti: "wave_index [0 \<mapsto> ring_triangle, 1 \<mapsto> ring_source] ring_triangle = Inr (0, 0x923)"
    by (simp add: wave_index_def ring_triangle_def ring_source_def pulse_at_def idle_def drop_bit_eq_div word_le_nat_alt)
  have p: "[0 \<mapsto> pulse_at] (0::nat) = Some pulse_at"
    "1 \<le> waveform pulse_at" "waveform pulse_at \<le> 7" "accumulator pulse_at < 2 ^ 24"
    by (simp_all add: ring_triangle_def ring_source_def pulse_at_def idle_def)
  have pi: "wave_index [0 \<mapsto> pulse_at] pulse_at = Inr (7, 0x800)"
    by (simp add: wave_index_def ring_triangle_def ring_source_def pulse_at_def idle_def drop_bit_eq_div word_le_nat_alt)
  from wftable_read_in_bounds[where h = "[0 \<mapsto> ring_triangle, 1 \<mapsto> ring_source]"
      and this = 0 and s = ring_triangle and wft = wftable_rows] t ti
  have "unat (drop_bit 12 (accumulator ring_triangle)) < 4096"
    "output_wave wftable_rows [0 \<mapsto> ring_triangle, 1 \<mapsto> ring_source] 0 = Inr 0"
    by (simp_all add: wftable_rows_def)
  moreover from wftable_read_in_bounds[where h = "[0 \<mapsto> pulse_at]" and this = 0
      and s = pulse_at and wft = wftable_rows] p pi
  have "output_wave wftable_rows [0 \<mapsto> pulse_at] 0 = Inr 7"
    by (simp add: wftable_rows_def)
  ultimately show ?thesis using ti pi by simp
qed

section \<open>The pulse variants\<close>

text \<open>
  C4, as stated, fails: the claim has the tables 3 to 6 selected when \<^verbatim>\<open>test\<close> is set or
  the phase has reached \<^verbatim>\<open>pw\<close>. For the pulse waveform 4 with \<^verbatim>\<open>pw\<close> = 2048,
  \<^verbatim>\<open>test\<close> clear and the phase at 2048, the code reads row 7.
\<close>

theorem pulse_variant_counterexample:
  "4 \<le> waveform pulse_at \<and> waveform pulse_at \<le> 7 \<and>
   (test pulse_at \<or> pw pulse_at \<le> drop_bit 12 (accumulator pulse_at)) \<and>
   wave_index [0 \<mapsto> pulse_at] pulse_at = Inr (7, 2048) \<and>
   output_wave wftable_rows [0 \<mapsto> pulse_at] 0 = Inr 7"
  by (simp add: output_wave_def wave_index_def wftable_read_def wftable_rows_def
      pulse_at_def idle_def drop_bit_eq_div word_le_nat_alt word_less_nat_alt)

text \<open>
  C4, amended: for a pulse waveform (4 to 7), \<^verbatim>\<open>output\<close> reads the table
  \<^verbatim>\<open>waveform + 3\<close>, one of the tables 7 to 10, exactly when \<^verbatim>\<open>test\<close> is set or the
  phase \<^verbatim>\<open>accumulator >> 12\<close> is at least \<^verbatim>\<open>pw\<close>, and the table \<^verbatim>\<open>waveform - 1\<close>, one
  of the tables 3 to 6, otherwise. With \<^verbatim>\<open>pw\<close> = 2048 and \<^verbatim>\<open>test\<close> clear, the table is
  \<^verbatim>\<open>waveform - 1\<close> at phase 2047 and \<^verbatim>\<open>waveform + 3\<close> at phase 2048.
\<close>

theorem pulse_variant_selection:
  assumes "4 \<le> waveform s" and "waveform s \<le> 7" and "wave_index h s = Inr (i, p)"
  shows "(test s \<or> pw s \<le> drop_bit 12 (accumulator s) \<longrightarrow>
            i = waveform s + 3 \<and> 7 \<le> unat i \<and> unat i \<le> 10) \<and>
         (\<not> (test s \<or> pw s \<le> drop_bit 12 (accumulator s)) \<longrightarrow>
            i = waveform s - 1 \<and> 3 \<le> unat i \<and> unat i \<le> 6) \<and>
         (\<not> test s \<and> pw s = 2048 \<and> drop_bit 12 (accumulator s) = 2047 \<longrightarrow>
            i = waveform s - 1) \<and>
         (\<not> test s \<and> pw s = 2048 \<and> drop_bit 12 (accumulator s) = 2048 \<longrightarrow>
            i = waveform s + 3)"
proof -
  have "1 \<le> waveform s" using assms(1) by (simp add: word_le_nat_alt)
  from code_1_to_7[OF this assms(2)] assms(1)
  have w: "waveform s = 4 \<or> waveform s = 5 \<or> waveform s = 6 \<or> waveform s = 7"
    by (auto simp: word_le_nat_alt)
  note i = wave_index_row[OF assms(3)]
  have hi: "i = waveform s + 3 \<and> 7 \<le> unat i \<and> unat i \<le> 10"
    if "test s \<or> pw s \<le> drop_bit 12 (accumulator s)"
    using i that assms(1) w by auto
  have lo: "i = waveform s - 1 \<and> 3 \<le> unat i \<and> unat i \<le> 6"
    if "\<not> (test s \<or> pw s \<le> drop_bit 12 (accumulator s))"
    using i that w by auto
  have "\<not> (2048::32 word) \<le> 2047" by (simp add: word_le_nat_alt)
  then show ?thesis using hi lo by auto
qed

theorem pulse_variant_selection_witness:
  "wave_index [0 \<mapsto> pulse_below] pulse_below = Inr (3, 2047) \<and>
   unat (3::32 word) \<le> 6 \<and>
   wave_index [0 \<mapsto> pulse_at] pulse_at = Inr (7, 2048) \<and>
   7 \<le> unat (7::32 word)"
proof -
  have b: "4 \<le> waveform pulse_below" "waveform pulse_below \<le> 7"
    "wave_index [0 \<mapsto> pulse_below] pulse_below = Inr (3, 2047)"
    "\<not> (test pulse_below \<or> pw pulse_below \<le> drop_bit 12 (accumulator pulse_below))"
    by (simp_all add: wave_index_def pulse_below_def pulse_at_def idle_def drop_bit_eq_div word_le_nat_alt)
  have a: "4 \<le> waveform pulse_at" "waveform pulse_at \<le> 7"
    "wave_index [0 \<mapsto> pulse_at] pulse_at = Inr (7, 2048)"
    "test pulse_at \<or> pw pulse_at \<le> drop_bit 12 (accumulator pulse_at)"
    by (simp_all add: wave_index_def pulse_below_def pulse_at_def idle_def drop_bit_eq_div word_le_nat_alt)
  from pulse_variant_selection[OF b(1,2,3)] b(4) have "unat (3::32 word) \<le> 6" by blast
  moreover from pulse_variant_selection[OF a(1,2,3)] a(4) have "7 \<le> unat (7::32 word)"
    by blast
  ultimately show ?thesis using a(3) b(3) by simp
qed

section \<open>Ring modulation\<close>

text \<open>
  C5, as stated, fails for the waveforms 3 and 7: with the triangle and the sawtooth
  bit both set, ring modulation on and bit 23 of the sync source's accumulator set, the
  phase is looked up as it is.
\<close>

theorem ring_mod_counterexample:
  "waveform ring_tri_saw = 3 \<and> bit (waveform ring_tri_saw) 0 \<and> ring_mod ring_tri_saw \<and>
   [0 \<mapsto> ring_tri_saw, 1 \<mapsto> ring_source] (sync_source ring_tri_saw) = Some ring_source \<and>
   bit (accumulator ring_source) 23 \<and>
   drop_bit 12 (accumulator ring_tri_saw) = 0x123 \<and>
   wave_index [0 \<mapsto> ring_tri_saw, 1 \<mapsto> ring_source] ring_tri_saw = Inr (2, 0x123)"
  by (simp add: wave_index_def ring_tri_saw_def ring_source_def idle_def drop_bit_eq_div word_le_nat_alt bit_iff_odd)

text \<open>
  C5, amended: for a waveform from 1 to 7 whose sync source is in the store, the phase
  that \<^verbatim>\<open>output\<close> looks up is \<^verbatim>\<open>accumulator >> 12\<close> with bit 11 flipped exactly when the
  waveform is 1 or 5 (triangle bit set, sawtooth bit clear), \<^verbatim>\<open>ring_mod\<close> is set and bit
  23 of the sync source's accumulator is set; in every other case, the waveforms 3 and 7
  among them, it is \<^verbatim>\<open>accumulator >> 12\<close> itself. The flip changes bit 11 and no other.
\<close>

theorem ring_mod_phase_flip:
  assumes "1 \<le> waveform s" and "waveform s \<le> 7" and "h (sync_source s) = Some src"
  shows "(\<exists>i. wave_index h s =
            Inr (i, if (waveform s = 1 \<or> waveform s = 5) \<and> ring_mod s \<and>
                       bit (accumulator src) 23
                    then drop_bit 12 (accumulator s) XOR 0x800
                    else drop_bit 12 (accumulator s))) \<and>
         (\<forall>n. bit (drop_bit 12 (accumulator s) XOR 0x800) n \<longleftrightarrow>
               (if n = 11 then \<not> bit (drop_bit 12 (accumulator s)) 11
                else bit (drop_bit 12 (accumulator s)) n))"
proof -
  have and3: "waveform s AND 3 = 1 \<longleftrightarrow> waveform s = 1 \<or> waveform s = 5"
    using code_1_to_7[OF assms(1,2)] by auto
  have idx: "\<exists>i. wave_index h s =
            Inr (i, if (waveform s = 1 \<or> waveform s = 5) \<and> ring_mod s \<and>
                       bit (accumulator src) 23
                    then drop_bit 12 (accumulator s) XOR 0x800
                    else drop_bit 12 (accumulator s))"
    using assms(3) by (simp add: wave_index_def Let_def and3 and_0x800000)
  have e: "(0x800::32 word) = push_bit 11 1" by simp
  have "bit (0x800::32 word) n \<longleftrightarrow> n = 11" for n
    unfolding e by (simp only: bit_single) simp
  then have "bit (p XOR 0x800) n \<longleftrightarrow> (if n = 11 then \<not> bit p 11 else bit p n)"
    for p :: "32 word" and n
    by (simp add: bit_xor_iff)
  then show ?thesis using idx by blast
qed

theorem ring_mod_phase_flip_witness:
  "(\<exists>i. wave_index [0 \<mapsto> ring_triangle, 1 \<mapsto> ring_source] ring_triangle = Inr (i, 0x923)) \<and>
   (\<exists>i. wave_index [0 \<mapsto> ring_tri_saw, 1 \<mapsto> ring_source] ring_tri_saw = Inr (i, 0x123))"
proof -
  have t: "1 \<le> waveform ring_triangle" "waveform ring_triangle \<le> 7"
    "[0 \<mapsto> ring_triangle, 1 \<mapsto> ring_source] (sync_source ring_triangle) = Some ring_source"
    by (simp_all add: ring_triangle_def ring_tri_saw_def ring_source_def idle_def)
  have u: "1 \<le> waveform ring_tri_saw" "waveform ring_tri_saw \<le> 7"
    "[0 \<mapsto> ring_tri_saw, 1 \<mapsto> ring_source] (sync_source ring_tri_saw) = Some ring_source"
    by (simp_all add: ring_triangle_def ring_tri_saw_def ring_source_def idle_def word_le_nat_alt)
  have f: "bit (accumulator ring_source) 23" "ring_mod ring_triangle"
    "waveform ring_triangle = 1" "waveform ring_tri_saw = 3"
    "drop_bit 12 (accumulator ring_triangle) = 0x123"
    "drop_bit 12 (accumulator ring_tri_saw) = 0x123"
    by (simp_all add: ring_triangle_def ring_tri_saw_def ring_source_def idle_def bit_iff_odd drop_bit_eq_div)
  have x: "(0x123::32 word) XOR 0x800 = 0x923" by simp
  from ring_mod_phase_flip[where h = "[0 \<mapsto> ring_triangle, 1 \<mapsto> ring_source]"
      and s = ring_triangle and src = ring_source, OF t]
  have "\<exists>i. wave_index [0 \<mapsto> ring_triangle, 1 \<mapsto> ring_source] ring_triangle = Inr (i, 0x923)"
    by (simp only: f x simp_thms if_True)
  moreover from ring_mod_phase_flip[where h = "[0 \<mapsto> ring_tri_saw, 1 \<mapsto> ring_source]"
      and s = ring_tri_saw and src = ring_source, OF u]
  have "\<exists>i. wave_index [0 \<mapsto> ring_tri_saw, 1 \<mapsto> ring_source] ring_tri_saw = Inr (i, 0x123)"
    by (simp add: f)
  ultimately show ?thesis by simp
qed

section \<open>The noise register and its output\<close>

lemma recompute_noise_output_fields [simp]:
  "accumulator (recompute_noise_output dac s) = accumulator s"
  "msb_rising (recompute_noise_output dac s) = msb_rising s"
  "test (recompute_noise_output dac s) = test s"
  "freq (recompute_noise_output dac s) = freq s"
  "shift_register (recompute_noise_output dac s) = shift_register s"
  "noise_overwrite_delay (recompute_noise_output dac s) = noise_overwrite_delay s"
  "waveform (recompute_noise_output dac s) = waveform s"
  "wave_zero (recompute_noise_output dac s) = wave_zero s"
  "noise_output_cached (recompute_noise_output dac s) = outputN s"
  "noise_output_cached_dac (recompute_noise_output dac s) =
     noise_dac_sum dac (wave_zero s) (outputN s)"
  by (simp_all add: recompute_noise_output_def Let_def)

lemma clock_noise_fields [simp]:
  "accumulator (clock_noise dac b s) = accumulator s"
  "msb_rising (clock_noise dac b s) = msb_rising s"
  "test (clock_noise dac b s) = test s"
  "freq (clock_noise dac b s) = freq s"
  "noise_overwrite_delay (clock_noise dac b s) = noise_overwrite_delay s"
  "waveform (clock_noise dac b s) = waveform s"
  "wave_zero (clock_noise dac b s) = wave_zero s"
  by (simp_all add: clock_noise_def Let_def)

lemma clock_noise_shift_register:
  "shift_register (clock_noise dac b s) =
     (if 8 < waveform s
      then (if b then shift_noise (shift_register s) else shift_register s) AND noise_clear_mask
      else (if b then shift_noise (shift_register s) else shift_register s))"
  by (simp add: clock_noise_def Let_def)

lemma clock_noise_output:
  "noise_output_cached (clock_noise dac b s) = outputN (clock_noise dac b s)"
  "noise_output_cached_dac (clock_noise dac b s) =
     noise_dac_sum dac (wave_zero s) (outputN (clock_noise dac b s))"
  by (simp_all add: clock_noise_def Let_def outputN_def)

lemma clock_expiry:
  assumes "test s" and "noise_overwrite_delay s = 1"
  shows "shift_register (clock dac s) = shift_register s OR 0x7ffffc"
    "noise_output_cached (clock dac s) = outputN (clock dac s)"
    "noise_output_cached_dac (clock dac s) =
       noise_dac_sum dac (wave_zero s) (outputN (clock dac s))"
    "wave_zero (clock dac s) = wave_zero s"
  using assms by (simp_all add: clock_def Let_def outputN_def)

lemma bit_outputN:
  "bit (outputN s) n \<longleftrightarrow>
     n = 11 \<and> bit (shift_register s) 22 \<or> n = 10 \<and> bit (shift_register s) 20 \<or>
     n = 9 \<and> bit (shift_register s) 16 \<or> n = 8 \<and> bit (shift_register s) 13 \<or>
     n = 7 \<and> bit (shift_register s) 11 \<or> n = 6 \<and> bit (shift_register s) 7 \<or>
     n = 5 \<and> bit (shift_register s) 4 \<or> n = 4 \<and> bit (shift_register s) 2"
  unfolding outputN_def tap_masks bit_or_iff
  by (simp only: tap_down tap_up) auto

lemma foldl_if_filter:
  "foldl (\<lambda>d i. if P i then d + f i else d) z xs = foldl (+) z (map f (filter P xs))"
  by (induction xs arbitrary: z) simp_all

lemma noise_dac_sum_filter:
  "noise_dac_sum dac wz w = foldl (+) wz (map dac (filter (bit w) [0..<12]))"
  unfolding noise_dac_sum_def test_single_bit by (rule foldl_if_filter)

lemma foldl_plus_sum_list:
  "foldl (+) z xs = (z::'a::monoid_add) + sum_list xs"
  by (induction xs arbitrary: z) (simp_all add: add.assoc)

text \<open>
  Where the addition is associative and commutative, as for real numbers, the fold is
  the sum over the set of the bits that are set.
\<close>

lemma noise_dac_sum_set:
  "noise_dac_sum dac wz w = (wz::'a::comm_monoid_add) + (\<Sum>i | i < 12 \<and> bit w i. dac i)"
proof -
  have "sum_list (map dac (filter (bit w) [0..<12])) = sum dac (set (filter (bit w) [0..<12]))"
    by (rule sum_list_distinct_conv_sum_set) simp
  moreover have "set (filter (bit w) [0..<12]) = {i. i < 12 \<and> bit w i}" by auto
  ultimately show ?thesis by (simp add: noise_dac_sum_filter foldl_plus_sum_list)
qed

text \<open>
  C7: whenever the noise output is recomputed, by \<^verbatim>\<open>clock_noise\<close> or by the \<^verbatim>\<open>clock\<close>
  call that ends the countdown under \<^verbatim>\<open>test\<close>, the cached 12-bit word has the register
  bits 22, 20, 16, 13, 11, 7, 4 and 2 at the positions 11, 10, 9, 8, 7, 6, 5 and 4 and no
  other bit set (so its low 4 bits are zero), and the cached sample is \<^verbatim>\<open>wave_zero\<close> plus
  \<^verbatim>\<open>dac[i]\<close> for every bit \<open>i\<close> set in that word, added in the order of the loop, from
  bit 0 up.
\<close>

theorem noise_output_recomputed:
  assumes "t = clock_noise dac b s \<or>
           test s \<and> noise_overwrite_delay s = 1 \<and> t = clock dac s"
  shows "(\<forall>n. bit (noise_output_cached t) n \<longleftrightarrow>
            n = 11 \<and> bit (shift_register t) 22 \<or> n = 10 \<and> bit (shift_register t) 20 \<or>
            n = 9 \<and> bit (shift_register t) 16 \<or> n = 8 \<and> bit (shift_register t) 13 \<or>
            n = 7 \<and> bit (shift_register t) 11 \<or> n = 6 \<and> bit (shift_register t) 7 \<or>
            n = 5 \<and> bit (shift_register t) 4 \<or> n = 4 \<and> bit (shift_register t) 2) \<and>
         noise_output_cached_dac t =
           foldl (+) (wave_zero s) (map dac (filter (bit (noise_output_cached t)) [0..<12])) \<and>
         wave_zero t = wave_zero s"
proof -
  have "noise_output_cached t = outputN t \<and>
        noise_output_cached_dac t = noise_dac_sum dac (wave_zero s) (outputN t) \<and>
        wave_zero t = wave_zero s"
    using assms clock_noise_output[of dac b s] clock_expiry[of s dac] by auto
  then show ?thesis by (simp add: bit_outputN noise_dac_sum_filter)
qed

theorem noise_output_recomputed_witness:
  "noise_output_cached (clock_noise dac_pow2 False noise_taps_22_2) = 0x810 \<and>
   noise_output_cached_dac (clock_noise dac_pow2 False noise_taps_22_2) = 2063"
proof -
  let ?t = "clock_noise dac_pow2 False noise_taps_22_2"
  have r: "shift_register ?t = 0x400004"
    by (simp add: clock_noise_shift_register noise_taps_22_2_def idle_def word_less_nat_alt)
  have z: "wave_zero noise_taps_22_2 = - 1" by (simp add: noise_taps_22_2_def idle_def)
  note c = noise_output_recomputed[where t = ?t and dac = dac_pow2 and b = False
      and s = noise_taps_22_2]
  have b: "bit (noise_output_cached ?t) n \<longleftrightarrow> n = 11 \<or> n = 4" for n
    using c by (simp add: r bit_iff_odd)
  have "bit (noise_output_cached ?t) n \<longleftrightarrow> bit (0x810::32 word) n" for n
  proof -
    have "(0x810::32 word) = push_bit 11 1 OR push_bit 4 1" by simp
    then have "bit (0x810::32 word) n \<longleftrightarrow> n = 11 \<or> n = 4"
      by (simp only: bit_or_iff bit_single) simp
    then show ?thesis using b by simp
  qed
  then have w: "noise_output_cached ?t = 0x810" by (rule bit_eqI)
  have u: "[0..<12] = [0, 1, 2, 3, 4, 5, 6, 7, 8, 9, 10, 11::nat]"
    by (simp add: upt_conv_Cons)
  have "filter (bit (0x810::32 word)) [0..<12] = [4, 11]"
    unfolding u by (simp add: bit_iff_odd)
  then have "noise_output_cached_dac ?t = 2063"
    using c by (simp add: w z dac_pow2_def)
  then show ?thesis using w by simp
qed

lemma noise_clear_mask_alt:
  "noise_clear_mask =
     mask 23 AND NOT (push_bit 22 1 OR push_bit 20 1 OR push_bit 16 1 OR push_bit 13 1
       OR push_bit 11 1 OR push_bit 7 1 OR push_bit 4 1 OR push_bit 2 1)"
  by (simp add: noise_clear_mask_def mask_numeral)

lemma bit_noise_clear_mask:
  "bit noise_clear_mask n \<longleftrightarrow> n < 23 \<and> n \<notin> {22, 20, 16, 13, 11, 7, 4, 2}"
  unfolding noise_clear_mask_alt
  by (simp only: bit_and_iff bit_not_iff bit_or_iff bit_mask_iff bit_single possible_bit_word)
    auto

lemma bit_shift_noise:
  "bit (shift_noise (r::32 word)) n \<longleftrightarrow>
     n = 0 \<and> (bit r 22 \<noteq> bit r 17) \<or> 0 < n \<and> n < 32 \<and> bit r (n - 1)"
  unfolding shift_noise_def Let_def bit_or_iff bit_shift_left_1 bit_feedback by auto

text \<open>
  What the noise generator does keep: the low 23 bits of the shifted register are the
  step of the 23-bit shift register, with the exclusive or of the bits 22 and 17 at
  position 0, whatever the bits above them are.
\<close>

lemma take_bit_shift_noise:
  "take_bit 23 (shift_noise (r::32 word)) =
     take_bit 23 (push_bit 1 (take_bit 23 r)) OR of_bool (bit r 22 \<noteq> bit r 17)"
proof (rule bit_word_eqI)
  fix n
  show "bit (take_bit 23 (shift_noise r)) n \<longleftrightarrow>
        bit (take_bit 23 (push_bit 1 (take_bit 23 r)) OR of_bool (bit r 22 \<noteq> bit r 17)) n"
    by (simp only: bit_take_bit_iff bit_or_iff bit_shift_left_1 bit_shift_noise
        bit_of_bool_iff) auto
qed

text \<open>
  C8: with a waveform above 8, every call of \<^verbatim>\<open>clock_noise\<close>, shifting or not, leaves
  in the register exactly the bits below 23 that are not one of 22, 20, 16, 13, 11, 7, 4
  and 2, the bits that \<^verbatim>\<open>outputN___\<close> reads; the noise word cached by the same call is
  zero.
\<close>

theorem noise_taps_cleared:
  assumes "8 < waveform s"
  shows "(\<forall>n. bit (shift_register (clock_noise dac b s)) n \<longleftrightarrow>
            n < 23 \<and> n \<notin> {22, 20, 16, 13, 11, 7, 4, 2} \<and>
            bit (if b then shift_noise (shift_register s) else shift_register s) n) \<and>
         noise_output_cached (clock_noise dac b s) = 0"
proof -
  let ?t = "clock_noise dac b s"
  have r: "bit (shift_register ?t) n \<longleftrightarrow>
      n < 23 \<and> n \<notin> {22, 20, 16, 13, 11, 7, 4, 2} \<and>
      bit (if b then shift_noise (shift_register s) else shift_register s) n" for n
    using assms by (auto simp: clock_noise_shift_register bit_and_iff bit_noise_clear_mask)
  have "\<not> bit (noise_output_cached ?t) n" for n
    unfolding clock_noise_output(1) bit_outputN r by simp
  then have "noise_output_cached ?t = 0" by (simp add: bit_eq_iff)
  with r show ?thesis by blast
qed

theorem noise_taps_cleared_witness:
  "shift_register (clock_noise dac_pow2 False noise_combined) = 0x2ed76b \<and>
   noise_output_cached (clock_noise dac_pow2 False noise_combined) = 0 \<and>
   noise_output_cached (clock_noise dac_pow2 True noise_combined) = 0"
proof -
  have w: "8 < waveform noise_combined" by (simp add: noise_combined_def idle_def word_less_nat_alt)
  have "shift_register (clock_noise dac_pow2 False noise_combined) = 0x2ed76b"
    by (simp add: clock_noise_shift_register noise_clear_mask_def noise_combined_def idle_def
        word_less_nat_alt)
  then show ?thesis
    using noise_taps_cleared[OF w, of dac_pow2 False] noise_taps_cleared[OF w, of dac_pow2 True]
    by simp
qed

text \<open>
  C6 fails on the code: \<^verbatim>\<open>clock_noise\<close> shifts the register left and sets bit 0, with
  no mask to 23 bits between (only the branch for a waveform above 8 masks, with
  \<open>0x7fffff\<close> in its constant). From \<open>0x7ffffc\<close>, the value that the test path of \<^verbatim>\<open>clock\<close>
  forces into an empty register, and a waveform of 8, one step gives \<open>0xfffff8\<close>, which
  has bit 23 set and is not below \<open>2^23\<close>; so does the \<^verbatim>\<open>clock\<close> call in which bit 19 of
  the accumulator rises. A register of 24 bits would hold the same value.
\<close>

theorem noise_shift_leaves_23_bits:
  "shift_register noise_full = 0x7ffffc \<and> shift_register noise_full < 2 ^ 23 \<and>
   waveform noise_full = 8 \<and>
   shift_register (clock_noise dac_pow2 True noise_full) = 0xfffff8 \<and>
   shift_register (clock dac_pow2 noise_full) = 0xfffff8 \<and>
   bit (shift_register (clock dac_pow2 noise_full)) 23 \<and>
   \<not> shift_register (clock dac_pow2 noise_full) < 2 ^ 23 \<and>
   shift_noise (0x7ffffc::24 word) = 0xfffff8"
  by (simp add: clock_def clock_noise_shift_register shift_noise_def noise_full_def idle_def Let_def
      word_less_nat_alt bit_iff_odd)

section \<open>One cycle, and many\<close>

lemma countdown:
  "test s \<Longrightarrow> unat (noise_overwrite_delay s) = Suc n \<Longrightarrow>
     noise_overwrite_delay ((clock dac ^^ Suc n) s) = 0 \<and>
     shift_register ((clock dac ^^ Suc n) s) = shift_register s OR 0x7ffffc \<and>
     (\<forall>k\<le>n. noise_overwrite_delay ((clock dac ^^ k) s) \<noteq> 0 \<and>
        shift_register ((clock dac ^^ k) s) = shift_register s)"
proof (induction n arbitrary: s)
  case 0
  then have "noise_overwrite_delay s = 1" by (simp add: unat_Suc_0)
  with 0 show ?case by (auto simp: clock_def Let_def)
next
  case (Suc n)
  let ?d = "noise_overwrite_delay s"
  have d: "?d \<noteq> 0" using Suc.prems(2) by auto
  have u: "unat (?d - 1) = Suc n" using Suc.prems(2) d by (simp add: unat_minus_one)
  then have d1: "?d - 1 \<noteq> 0" by auto
  have c: "clock dac s = s\<lparr>noise_overwrite_delay := ?d - 1\<rparr>"
    using Suc.prems(1) d d1 by (simp add: clock_def Let_def)
  have "test (clock dac s)" "unat (noise_overwrite_delay (clock dac s)) = Suc n"
    using Suc.prems(1) u by (simp_all add: c)
  note ih = Suc.IH[OF this]
  have fin: "noise_overwrite_delay ((clock dac ^^ Suc (Suc n)) s) = 0"
    "shift_register ((clock dac ^^ Suc (Suc n)) s) = shift_register s OR 0x7ffffc"
    using ih by (simp_all add: funpow_swap1 c)
  have "noise_overwrite_delay ((clock dac ^^ k) s) \<noteq> 0 \<and>
        shift_register ((clock dac ^^ k) s) = shift_register s" if k: "k \<le> Suc n" for k
  proof (cases k)
    case 0
    then show ?thesis using d by simp
  next
    case (Suc j)
    then have "j \<le> n" using k by simp
    with ih show ?thesis unfolding Suc by (simp add: funpow_swap1 c)
  qed
  with fin show ?case by blast
qed

text \<open>
  C9: with \<^verbatim>\<open>test\<close> held and a countdown \<^verbatim>\<open>noise_overwrite_delay\<close> of \<open>n > 0\<close>, the first
  \<open>n - 1\<close> calls of \<^verbatim>\<open>clock\<close> leave the register as it is and the countdown above zero;
  the \<open>n\<close>-th call brings the countdown to zero and ors \<open>0x7ffffc\<close> into the register,
  which is then not zero, whatever it was before (zero included). A single call with a
  countdown of 1 is the case \<open>n = 1\<close>.
\<close>

theorem test_countdown_forces_bits:
  assumes "test s" and "0 < sint (noise_overwrite_delay s)"
    and "n = nat (sint (noise_overwrite_delay s))"
  shows "noise_overwrite_delay ((clock dac ^^ n) s) = 0 \<and>
         shift_register ((clock dac ^^ n) s) = shift_register s OR 0x7ffffc \<and>
         shift_register ((clock dac ^^ n) s) \<noteq> 0 \<and>
         (\<forall>k<n. noise_overwrite_delay ((clock dac ^^ k) s) \<noteq> 0 \<and>
            shift_register ((clock dac ^^ k) s) = shift_register s)"
proof -
  have n: "unat (noise_overwrite_delay s) = n" "0 < n"
    using assms(2,3) sint_pos_unat[OF assms(2)] by simp_all
  then obtain m where m: "n = Suc m" by (cases n) auto
  from countdown[OF assms(1), of m dac] n m or_0x7ffffc_nonzero[of "shift_register s"]
  show ?thesis by (simp add: less_Suc_eq_le)
qed

theorem test_countdown_forces_bits_witness:
  "shift_register held = 0 \<and>
   shift_register ((clock dac_pow2 ^^ 2) held) = 0 \<and>
   shift_register ((clock dac_pow2 ^^ 3) held) = 0x7ffffc \<and>
   shift_register ((clock dac_pow2 ^^ 3) held) \<noteq> 0"
proof -
  have h: "test held" "0 < sint (noise_overwrite_delay held)"
    "3 = nat (sint (noise_overwrite_delay held))" "shift_register held = 0"
    by (simp_all add: held_def idle_def)
  from test_countdown_forces_bits[OF h(1,2,3), of dac_pow2]
  have "shift_register ((clock dac_pow2 ^^ 3) held) = 0x7ffffc"
    "shift_register ((clock dac_pow2 ^^ 3) held) \<noteq> 0"
    "shift_register ((clock dac_pow2 ^^ 2) held) = 0"
    by (simp_all add: h(4))
  then show ?thesis using h(4) by simp
qed

lemma clock_running:
  assumes "\<not> test s"
  shows "\<not> test (clock dac s)" "freq (clock dac s) = freq s"
    "accumulator (clock dac s) = (accumulator s + freq s) AND 0xffffff"
    "msb_rising (clock dac s) \<longleftrightarrow>
       \<not> bit (accumulator s) 23 \<and> bit (accumulator (clock dac s)) 23"
  using assms by (simp_all add: clock_def Let_def and_0x800000)

lemma clock_held: "test s \<Longrightarrow> accumulator (clock dac s) = accumulator s"
  by (simp add: clock_def Let_def)

lemma clock_noise_step:
  assumes "\<not> test s"
  shows "clock dac s =
     (if \<not> bit (accumulator s) 19 \<and> bit ((accumulator s + freq s) AND 0xffffff) 19
      then clock_noise dac True else id)
       (s\<lparr>accumulator := (accumulator s + freq s) AND 0xffffff,
           msb_rising := \<not> bit (accumulator s) 23 \<and>
                         bit ((accumulator s + freq s) AND 0xffffff) 23\<rparr>)"
  using assms by (simp add: clock_def Let_def and_0x800000 and_0x080000)

lemma clock_iter_running:
  assumes "\<not> test s" "freq s = 4096" "accumulator s = 0"
  shows "\<not> test ((clock dac ^^ n) s) \<and> freq ((clock dac ^^ n) s) = 4096 \<and>
         unat (accumulator ((clock dac ^^ n) s)) = (n * 4096) mod 2 ^ 24"
proof (induction n)
  case 0
  then show ?case using assms by simp
next
  case (Suc n)
  let ?t = "(clock dac ^^ n) s"
  from Suc have t: "\<not> test ?t" "freq ?t = 4096"
    "unat (accumulator ?t) = (n * 4096) mod 2 ^ 24"
    by simp_all
  have "unat (accumulator (clock dac ?t)) = (unat (accumulator ?t) + unat (freq ?t)) mod 2 ^ 24"
    using t(1) by (simp add: clock_running(3) unat_masked_sum)
  also have "\<dots> = ((n * 4096) mod 2 ^ 24 + 4096) mod 2 ^ 24" using t by simp
  also have "\<dots> = (n * 4096 + 4096) mod 2 ^ 24" by (rule mod_add_left_eq)
  also have "n * 4096 + 4096 = Suc n * 4096" by simp
  finally show ?case using t by (simp add: clock_running)
qed

lemma clock_iter_msb:
  assumes "\<not> test s" "freq s = 4096" "accumulator s = 0"
  shows "msb_rising ((clock dac ^^ Suc n) s) \<longleftrightarrow>
           (n * 4096) mod 2 ^ 24 < 2 ^ 23 \<and> 2 ^ 23 \<le> (Suc n * 4096) mod 2 ^ 24"
proof -
  let ?t = "(clock dac ^^ n) s"
  note a = clock_iter_running[OF assms, where dac = dac and n = n]
  note b = clock_iter_running[OF assms, where dac = dac and n = "Suc n"]
  have "unat (accumulator ?t) < 2 ^ 24" using a by simp
  then have 1: "bit (accumulator ?t) 23 \<longleftrightarrow> 2 ^ 23 \<le> (n * 4096) mod (2 ^ 24 :: nat)"
    using a by (simp add: bit_23_unat)
  have "unat (accumulator (clock dac ?t)) < 2 ^ 24" using b by simp
  then have 2: "bit (accumulator (clock dac ?t)) 23 \<longleftrightarrow>
      2 ^ 23 \<le> (Suc n * 4096) mod (2 ^ 24 :: nat)"
    using b by (simp add: bit_23_unat)
  have "msb_rising (clock dac ?t) \<longleftrightarrow>
      \<not> bit (accumulator ?t) 23 \<and> bit (accumulator (clock dac ?t)) 23"
    using a by (simp add: clock_running(4))
  then show ?thesis using 1 2 by (simp add: not_le)
qed

lemma clock_4096_cycles:
  assumes "\<not> test s" "freq s = 4096" "accumulator s = 0"
  shows "accumulator ((clock dac ^^ 4096) s) = 0"
    and "0 < k \<Longrightarrow> k < 4096 \<Longrightarrow> accumulator ((clock dac ^^ k) s) \<noteq> 0"
    and "msb_rising ((clock dac ^^ 2048) s)"
    and "accumulator ((clock dac ^^ 2048) s) = 2 ^ 23"
    and "0 < k \<Longrightarrow> k < 2048 \<Longrightarrow> \<not> msb_rising ((clock dac ^^ k) s)"
proof -
  have "unat (accumulator ((clock dac ^^ 4096) s)) = 0"
    using clock_iter_running[OF assms, where dac = dac and n = 4096] by simp
  then show "accumulator ((clock dac ^^ 4096) s) = 0" by (simp add: unat_eq_0)
next
  assume k: "0 < k" "k < 4096"
  then have "k * 4096 < 2 ^ 24" by simp
  then have "unat (accumulator ((clock dac ^^ k) s)) = k * 4096"
    using clock_iter_running[OF assms, where dac = dac and n = k] by simp
  then show "accumulator ((clock dac ^^ k) s) \<noteq> 0" using k by auto
next
  have "msb_rising ((clock dac ^^ Suc 2047) s)"
    unfolding clock_iter_msb[OF assms] by simp
  then show "msb_rising ((clock dac ^^ 2048) s)" by simp
next
  have "unat (accumulator ((clock dac ^^ 2048) s)) = unat (2 ^ 23 :: 32 word)"
    using clock_iter_running[OF assms, where dac = dac and n = 2048] by simp
  then show "accumulator ((clock dac ^^ 2048) s) = 2 ^ 23" by (simp only: word_unat_eq_iff)
next
  assume k: "0 < k" "k < 2048"
  then obtain n where n: "k = Suc n" by (cases k) auto
  have "Suc n * 4096 < 2 ^ 23" using k n by simp
  then have "(Suc n * 4096) mod 2 ^ 24 < 2 ^ 23" by simp
  then show "\<not> msb_rising ((clock dac ^^ k) s)"
    unfolding n clock_iter_msb[OF assms] by simp
qed

text \<open>
  C1: one call of \<^verbatim>\<open>clock\<close> leaves the accumulator as it is when \<^verbatim>\<open>test\<close> is set.
  Otherwise the new accumulator is the old one plus \<^verbatim>\<open>freq\<close>, modulo \<open>2^24\<close>;
  \<^verbatim>\<open>msb_rising\<close> is set exactly when bit 23 was clear before and is set after; and the
  noise generator is clocked (\<^verbatim>\<open>clock_noise(true)\<close> runs on the updated state) exactly
  when bit 19 was clear before and is set after, the call changing nothing else. With
  \<^verbatim>\<open>freq\<close> = 4096, the accumulator at 0 and \<^verbatim>\<open>test\<close> clear, the accumulator is 0 again
  after 4096 calls and not before, and \<^verbatim>\<open>msb_rising\<close> is set after call 2048, when the
  accumulator is \<open>2^23\<close>, and after none of the calls 1 to 2047.
\<close>

theorem clock_advances_phase:
  "(test s \<longrightarrow> accumulator (clock dac s) = accumulator s) \<and>
   (\<not> test s \<longrightarrow>
      unat (accumulator (clock dac s)) = (unat (accumulator s) + unat (freq s)) mod 2 ^ 24 \<and>
      (msb_rising (clock dac s) \<longleftrightarrow>
         \<not> bit (accumulator s) 23 \<and> bit (accumulator (clock dac s)) 23) \<and>
      clock dac s =
        (if \<not> bit (accumulator s) 19 \<and> bit (accumulator (clock dac s)) 19
         then clock_noise dac True else id)
          (s\<lparr>accumulator := (accumulator s + freq s) AND 0xffffff,
              msb_rising := \<not> bit (accumulator s) 23 \<and> bit (accumulator (clock dac s)) 23\<rparr>)) \<and>
   (\<not> test s \<and> freq s = 4096 \<and> accumulator s = 0 \<longrightarrow>
      accumulator ((clock dac ^^ 4096) s) = 0 \<and>
      (\<forall>k. 0 < k \<and> k < 4096 \<longrightarrow> accumulator ((clock dac ^^ k) s) \<noteq> 0) \<and>
      msb_rising ((clock dac ^^ 2048) s) \<and>
      accumulator ((clock dac ^^ 2048) s) = 2 ^ 23 \<and>
      (\<forall>k. 0 < k \<and> k < 2048 \<longrightarrow> \<not> msb_rising ((clock dac ^^ k) s)))"
proof -
  have 1: "test s \<longrightarrow> accumulator (clock dac s) = accumulator s"
    by (simp add: clock_held)
  have 2: "unat (accumulator (clock dac s)) = (unat (accumulator s) + unat (freq s)) mod 2 ^ 24 \<and>
      (msb_rising (clock dac s) \<longleftrightarrow>
         \<not> bit (accumulator s) 23 \<and> bit (accumulator (clock dac s)) 23) \<and>
      clock dac s =
        (if \<not> bit (accumulator s) 19 \<and> bit (accumulator (clock dac s)) 19
         then clock_noise dac True else id)
          (s\<lparr>accumulator := (accumulator s + freq s) AND 0xffffff,
              msb_rising := \<not> bit (accumulator s) 23 \<and> bit (accumulator (clock dac s)) 23\<rparr>)"
    if t: "\<not> test s"
  proof -
    have a: "accumulator (clock dac s) = (accumulator s + freq s) AND 0xffffff"
      using t by (rule clock_running(3))
    show ?thesis
      unfolding a using clock_noise_step[OF t, of dac] clock_running(4)[OF t, of dac]
      by (simp add: unat_masked_sum a)
  qed
  have 3: "accumulator ((clock dac ^^ 4096) s) = 0 \<and>
      (\<forall>k. 0 < k \<and> k < 4096 \<longrightarrow> accumulator ((clock dac ^^ k) s) \<noteq> 0) \<and>
      msb_rising ((clock dac ^^ 2048) s) \<and>
      accumulator ((clock dac ^^ 2048) s) = 2 ^ 23 \<and>
      (\<forall>k. 0 < k \<and> k < 2048 \<longrightarrow> \<not> msb_rising ((clock dac ^^ k) s))"
    if "\<not> test s \<and> freq s = 4096 \<and> accumulator s = 0"
    using clock_4096_cycles[where s = s and dac = dac] that by blast
  from 1 2 3 show ?thesis by blast
qed

theorem clock_advances_phase_witness:
  "accumulator (clock dac_pow2 held) = 0x123456 \<and>
   unat (accumulator (clock dac_pow2 running)) = 4096 \<and>
   accumulator ((clock dac_pow2 ^^ 2048) running) = 2 ^ 23 \<and>
   msb_rising ((clock dac_pow2 ^^ 2048) running) \<and>
   \<not> msb_rising ((clock dac_pow2 ^^ 2047) running) \<and>
   accumulator ((clock dac_pow2 ^^ 4095) running) \<noteq> 0 \<and>
   accumulator ((clock dac_pow2 ^^ 4096) running) = 0 \<and>
   shift_register (clock dac_pow2 noise_full) = 0xfffff8"
proof -
  have h: "test held" "accumulator held = 0x123456" by (simp_all add: noise_full_def held_def running_def idle_def)
  have r: "\<not> test running" "freq running = 4096" "accumulator running = 0"
    by (simp_all add: noise_full_def held_def running_def idle_def)
  have f: "\<not> test noise_full" "accumulator noise_full = 0x07ffff" "freq noise_full = 1"
    "shift_register noise_full = 0x7ffffc" "waveform noise_full = 8"
    by (simp_all add: noise_full_def held_def running_def idle_def)
  note a = clock_advances_phase[of held dac_pow2]
  note b = clock_advances_phase[of running dac_pow2]
  note c = clock_advances_phase[of noise_full dac_pow2]
  have "accumulator (clock dac_pow2 held) = 0x123456" using a h by simp
  moreover have "unat (accumulator (clock dac_pow2 running)) = 4096" using b r by simp
  moreover have "accumulator ((clock dac_pow2 ^^ 2048) running) = 2 ^ 23"
    "msb_rising ((clock dac_pow2 ^^ 2048) running)"
    "accumulator ((clock dac_pow2 ^^ 4096) running) = 0"
    using b r by simp_all
  moreover have "\<not> msb_rising ((clock dac_pow2 ^^ 2047) running)"
    "accumulator ((clock dac_pow2 ^^ 4095) running) \<noteq> 0"
    using b r by simp_all
  moreover have "accumulator (clock dac_pow2 noise_full) = 0x080000"
    using f by (simp add: clock_running(3))
  then have "shift_register (clock dac_pow2 noise_full) = 0xfffff8"
    using c f by (simp add: bit_iff_odd clock_noise_shift_register shift_noise_def)
  ultimately show ?thesis by simp
qed

end
